theory Spec2Isabelle
  imports Main "HOL-Library.Word"
begin

unbundle bit_operations_syntax

section \<open>Bytes\<close>

text \<open>
  A \<open>Uint8Array\<close> is a list of numbers below 256; a \<open>BigInt\<close> that never goes
  negative is a natural number, with \<open>&\<close>, \<open>|\<close> and \<open>>>\<close> as \<open>AND\<close>,
  \<open>OR\<close> and \<open>drop_bit\<close>.
\<close>

type_synonym bytes = "nat list"

section \<open>Varint codec of the transaction module\<close>

text \<open>
  \<open>writeVarint\<close> of the transaction builder: while the remaining value is at least
  \<open>0x80\<close>, emit its low seven bits with the continuation bit and shift right by seven;
  then emit the last group without the continuation bit.
\<close>

function writeVarint :: "nat \<Rightarrow> bytes" where
  "writeVarint remaining =
     (if remaining \<ge> 0x80
      then ((remaining AND 0x7f) OR 0x80) # writeVarint (drop_bit 7 remaining)
      else [remaining AND 0x7f])"
  by pat_completeness auto
termination
  by (relation "measure id") (auto simp: drop_bit_eq_div)

declare writeVarint.simps [simp del]

text \<open>
  \<open>decodeVarint\<close> works on JavaScript numbers with \<open>|=\<close> and \<open><<\<close>: both operate on
  32-bit two's complement integers, and \<open><<\<close> uses its right operand modulo 32. The
  accumulator is therefore a 32-bit word, read back as a signed number.
\<close>

record varint_result =
  val :: int
  bytesRead :: nat

fun decodeVarint_loop :: "bytes \<Rightarrow> 32 word \<Rightarrow> nat \<Rightarrow> nat \<Rightarrow> varint_result" where
  "decodeVarint_loop [] v shift n = \<lparr>val = sint v, bytesRead = n\<rparr>"
| "decodeVarint_loop (byte # rest) v shift n =
     (let v' = v OR push_bit (shift mod 32) (word_of_nat (byte AND 0x7f))
      in if byte AND 0x80 = 0
         then \<lparr>val = sint v', bytesRead = Suc n\<rparr>
         else decodeVarint_loop rest v' (shift + 7) (Suc n))"

definition decodeVarint :: "bytes \<Rightarrow> nat \<Rightarrow> varint_result" where
  "decodeVarint bs offset = decodeVarint_loop (drop offset bs) 0 0 0"

section \<open>Varint writers of the staking module\<close>

text \<open>
  The module-level \<open>writeVarint\<close> of the staking module is a do-while loop: it always
  emits one group with the continuation bit, shifts, and goes on while the shifted value
  is at least \<open>0x80\<close>; afterwards the continuation bit of the last emitted byte is
  cleared.
\<close>

function staking_writeVarint_loop :: "nat \<Rightarrow> bytes" where
  "staking_writeVarint_loop remaining =
     ((remaining AND 0x7f) OR 0x80) #
       (if drop_bit 7 remaining \<ge> 0x80
        then staking_writeVarint_loop (drop_bit 7 remaining) else [])"
  by pat_completeness auto
termination
  by (relation "measure id") (auto simp: drop_bit_eq_div)

declare staking_writeVarint_loop.simps [simp del]

definition staking_writeVarint :: "nat \<Rightarrow> bytes" where
  "staking_writeVarint v =
     (let bs = staking_writeVarint_loop v in butlast bs @ [last bs AND 0x7f])"


section \<open>What a varint denotes\<close>

text \<open>
  The value of a base-128 little-endian byte sequence, and the shape of a well-formed
  one: every byte but the last carries the continuation bit \<open>0x80\<close>, the last one
  does not.
\<close>

fun varintValue :: "bytes \<Rightarrow> nat" where
  "varintValue [] = 0"
| "varintValue (b # bs) = b mod 128 + 128 * varintValue bs"

fun wellFormedVarint :: "bytes \<Rightarrow> bool" where
  "wellFormedVarint [] = False"
| "wellFormedVarint [b] = (b < 128)"
| "wellFormedVarint (b # bs) = (128 \<le> b \<and> b < 256 \<and> wellFormedVarint bs)"

type_synonym uint8array = "8 word list"

section \<open>Hex strings\<close>

text \<open>
  \<open>hexToBytes\<close> reads a string two characters at a time with \<open>parseInt(pair, 16)\<close> and
  stores the result in a \<open>Uint8Array\<close>; a last odd character is ignored. \<open>parseInt\<close>
  skips one leading white-space character or sign, reads the hex digits that follow and
  gives \<open>NaN\<close> (here \<open>None\<close>) when there is none; the array stores \<open>NaN\<close> as 0 and
  any other number modulo 256.
\<close>

definition hexDigit :: "char \<Rightarrow> nat option" where
  "hexDigit c =
     (let n = (of_char c :: nat)
      in if 48 \<le> n \<and> n \<le> 57 then Some (n - 48)
         else if 97 \<le> n \<and> n \<le> 102 then Some (n - 87)
         else if 65 \<le> n \<and> n \<le> 70 then Some (n - 55)
         else None)"

definition isWhiteSpace :: "char \<Rightarrow> bool" where
  "isWhiteSpace c = ((of_char c :: nat) \<in> {9, 10, 11, 12, 13, 32, 160})"

definition parseInt16 :: "char \<Rightarrow> char \<Rightarrow> int option" where
  "parseInt16 c1 c2 =
     (case hexDigit c1 of
        Some d1 \<Rightarrow>
          (case hexDigit c2 of
             Some d2 \<Rightarrow> Some (int (16 * d1 + d2))
           | None \<Rightarrow> if c1 = CHR ''0'' \<and> (c2 = CHR ''x'' \<or> c2 = CHR ''X'') then None
                     else Some (int d1))
      | None \<Rightarrow>
          if isWhiteSpace c1 \<or> c1 = CHR ''+'' then map_option int (hexDigit c2)
          else if c1 = CHR ''-'' then map_option (\<lambda>d. - int d) (hexDigit c2)
          else None)"

definition toUint8 :: "int option \<Rightarrow> 8 word" where
  "toUint8 v = (case v of None \<Rightarrow> 0 | Some n \<Rightarrow> word_of_int n)"

fun hexToBytes :: "string \<Rightarrow> uint8array" where
  "hexToBytes (c1 # c2 # rest) = toUint8 (parseInt16 c1 c2) # hexToBytes rest"
| "hexToBytes rest = []"

text \<open>\<open>bytesToHex\<close>: \<open>b.toString(16).padStart(2, '0')\<close> for each byte, joined.\<close>

definition hexChar :: "nat \<Rightarrow> char" where
  "hexChar n = ''0123456789abcdef'' ! n"

definition bytesToHex :: "uint8array \<Rightarrow> string" where
  "bytesToHex bs = concat (map (\<lambda>b. [hexChar (unat b div 16), hexChar (unat b mod 16)]) bs)"

section \<open>Scalars of the signature scheme\<close>

text \<open>
  The crypto module works on \<open>Uint8Array\<close>s, lists of 8-bit words, and on
  \<open>BigInt\<close>s, unbounded integers. Every \<open>throw\<close> is an error value, and
  \<open>andThen\<close> passes the first one on.
\<close>

datatype error = LengthError | RangeError | TypeError | InvalidScalar | InvalidPoint

definition andThen :: "error + 'a \<Rightarrow> ('a \<Rightarrow> error + 'b) \<Rightarrow> error + 'b" where
  "andThen r f = (case r of Inl e \<Rightarrow> Inl e | Inr v \<Rightarrow> f v)"


definition CURVE_ORDER :: int where
  "CURVE_ORDER = 0x1000000000000000000000000000000014def9dea2f79cd65812631a5cf5d3ed"

text \<open>The remainder \<open>%\<close> of \<open>BigInt\<close> truncates towards zero.\<close>

definition bigint_rem :: "int \<Rightarrow> int \<Rightarrow> int" where
  "bigint_rem a b = a - b * (sgn a * sgn b * (\<bar>a\<bar> div \<bar>b\<bar>))"

text \<open>
  The loop \<open>for (i = 0; i < 32; i++) num |= BigInt(bytes[i]) << (BigInt(i) * 8n)\<close>, shared
  by \<open>scReduce32\<close> and \<open>scalarToBigInt\<close>. Reading past the end of the array gives
  \<open>undefined\<close>, on which \<open>BigInt\<close> throws.
\<close>

definition foldLE32 :: "uint8array \<Rightarrow> int" where
  "foldLE32 bs = fold (\<lambda>i num. num OR push_bit (i * 8) (uint (bs ! i))) [0..<32] 0"

definition readLE32 :: "uint8array \<Rightarrow> error + int" where
  "readLE32 bs = (if length bs < 32 then Inl TypeError else Inr (foldLE32 bs))"

text \<open>
  The loop \<open>for (i = 0; i < 32; i++) result[i] = Number((num >> (BigInt(i) * 8n)) & 0xffn)\<close>,
  shared by \<open>scReduce32\<close> and \<open>bigIntToScalar\<close>.
\<close>

definition writeLE32 :: "int \<Rightarrow> uint8array" where
  "writeLE32 num = map (\<lambda>i. word_of_int (drop_bit (i * 8) num AND 0xff)) [0..<32]"

definition scReduce32 :: "uint8array \<Rightarrow> error + uint8array" where
  "scReduce32 input =
     (if length input \<noteq> 64 then Inl LengthError
      else andThen (readLE32 input) (\<lambda>num.
        Inr (writeLE32 (bigint_rem num CURVE_ORDER))))"


definition scalarToBigInt :: "uint8array \<Rightarrow> error + int" where
  "scalarToBigInt scalar = readLE32 scalar"

definition bigIntToScalar :: "int \<Rightarrow> uint8array" where
  "bigIntToScalar num = writeLE32 num"

text \<open>\<open>target.set(source, offset)\<close> of a typed array; it throws when the source does not fit.\<close>

definition uint8_set :: "uint8array \<Rightarrow> uint8array \<Rightarrow> nat \<Rightarrow> error + uint8array" where
  "uint8_set target source offset =
     (if offset + length source > length target then Inl RangeError
      else Inr (take offset target @ source @ drop (offset + length source) target))"

text \<open>
  \<open>hashToScalar\<close>; \<open>keccak256\<close> is the digest function of the \<open>js-sha3\<close> package, a
  parameter here.
\<close>

definition hashToScalar :: "(uint8array \<Rightarrow> string) \<Rightarrow> uint8array \<Rightarrow> error + uint8array" where
  "hashToScalar keccak256 data =
     (let hash = keccak256 data;
          hashBytes = hexToBytes hash
      in
      andThen (uint8_set (replicate 64 0) hashBytes 0) (\<lambda>result.
      andThen (uint8_set result hashBytes 32) (\<lambda>result'.
      scReduce32 result')))"


section \<open>Schnorr signatures and key images\<close>

text \<open>
  The point operations come from the \<open>@noble/ed25519\<close> package: the base point
  \<open>Point.BASE\<close>, \<open>multiply\<close>, \<open>add\<close>, \<open>toRawBytes\<close> and \<open>Point.fromHex\<close>.
  They are parameters, collected in a record over any type of points. \<open>Point.fromHex\<close>
  throws on a string that encodes no point: \<open>None\<close> here.
\<close>

record 'p ed25519 =
  Point_BASE :: 'p
  Point_multiply :: "'p \<Rightarrow> int \<Rightarrow> 'p"
  Point_add :: "'p \<Rightarrow> 'p \<Rightarrow> 'p"
  Point_toRawBytes :: "'p \<Rightarrow> uint8array"
  Point_fromHex :: "string \<Rightarrow> 'p option"

text \<open>
  A call \<open>P.multiply(scalar)\<close>: the package accepts a scalar only when
  \<open>0 < scalar < \<ell>\<close> and throws on any other; \<open>Point_multiply\<close> is what it computes
  on the scalars it accepts. A call \<open>Point.fromHex(hex)\<close> likewise.
\<close>

definition multiply :: "'p ed25519 \<Rightarrow> 'p \<Rightarrow> int \<Rightarrow> error + 'p" where
  "multiply ed P scalar =
     (if 0 < scalar \<and> scalar < CURVE_ORDER then Inr (Point_multiply ed P scalar)
      else Inl InvalidScalar)"




definition generateKeyImage ::
  "'p ed25519 \<Rightarrow> (uint8array \<Rightarrow> string) \<Rightarrow>
   string \<Rightarrow> string \<Rightarrow> error + string" where
  "generateKeyImage ed keccak256 publicKey privateKey =
     (let publicKeyBytes = hexToBytes publicKey;
          privateKeyBytes = hexToBytes privateKey
      in
      if length publicKeyBytes \<noteq> 32 then Inl LengthError
      else if length privateKeyBytes \<noteq> 32 then Inl LengthError
      else
        let hash = keccak256 publicKeyBytes;
            hashBytes = hexToBytes hash
        in
        andThen (hashToScalar keccak256 hashBytes) (\<lambda>hashScalar.
        andThen (scalarToBigInt hashScalar) (\<lambda>hashScalarBigInt.
        andThen (multiply ed (Point_BASE ed) hashScalarBigInt) (\<lambda>pointHP.
        andThen (scalarToBigInt privateKeyBytes) (\<lambda>privateKeyBigInt.
        andThen (multiply ed pointHP privateKeyBigInt) (\<lambda>keyImagePoint.
        Inr (bytesToHex (Point_toRawBytes ed keyImagePoint))))))))"


text \<open>The little-endian value of a byte sequence.\<close>

fun leValue :: "uint8array \<Rightarrow> int" where
  "leValue [] = 0"
| "leValue (b # bs) = uint b + 256 * leValue bs"

text \<open>
  An instance of the parameters, to show that the assumptions can be met: the integers
  modulo \<open>\<ell>\<close> under addition with generator 1 (the group the base point generates, up to
  isomorphism), encoded as 32 little-endian bytes, and a stand-in digest of 32 bytes.
\<close>

definition sampleGroup :: "int ed25519" where
  "sampleGroup =
     \<lparr>Point_BASE = 1,
      Point_multiply = (\<lambda>p n. (p * n) mod CURVE_ORDER),
      Point_add = (\<lambda>p q. (p + q) mod CURVE_ORDER),
      Point_toRawBytes = writeLE32,
      Point_fromHex = (\<lambda>hex. Some (foldLE32 (hexToBytes hex)))\<rparr>"

definition sampleDigest :: "uint8array \<Rightarrow> string" where
  "sampleDigest data = bytesToHex (writeLE32 (leValue data + 1))"

text \<open>A second stand-in digest, whose values lie above \<open>\<ell>\<close> on short inputs.\<close>

definition sampleDigestHigh :: "uint8array \<Rightarrow> string" where
  "sampleDigestHigh data = bytesToHex (writeLE32 (2 ^ 256 - 1 - leValue (take 8 data)))"

text \<open>
  The key image as the specification words it: \<open>s \<cdot> (hash_to_scalar(P) \<cdot> G)\<close>, with
  \<open>hash_to_scalar\<close> applied to the bytes of the public key.
\<close>

definition keyImage_spec ::
  "'p ed25519 \<Rightarrow> (uint8array \<Rightarrow> string) \<Rightarrow>
   string \<Rightarrow> string \<Rightarrow> error + string" where
  "keyImage_spec ed keccak256 publicKey privateKey =
     andThen (hashToScalar keccak256 (hexToBytes publicKey)) (\<lambda>h.
     andThen (scalarToBigInt h) (\<lambda>hs.
     andThen (multiply ed (Point_BASE ed) hs) (\<lambda>pointHP.
     andThen (scalarToBigInt (hexToBytes privateKey)) (\<lambda>s.
     andThen (multiply ed pointHP s) (\<lambda>keyImagePoint.
     Inr (bytesToHex (Point_toRawBytes ed keyImagePoint)))))))"

section \<open>The wallet's view of the chain\<close>

text \<open>
  Heights and times are JavaScript numbers holding integers; amounts and indexes are
  numbers holding natural numbers (the serializer turns them into non-negative
  \<open>BigInt\<close>s). An optional field is an \<open>option\<close>, an optional boolean that is only
  ever tested is a \<open>bool\<close>. A
  \<open>Map\<close> is the list of its entries in insertion order, which is the order of
  iteration.
\<close>

record WalletOutput =
  key :: string
  amount :: nat
  blockHeight :: int
  timestamp :: int
  transactionHash :: string
  transactionIndex :: nat
  unlockTime :: int
  transactionPublicKey :: string
  isSpendable :: bool
  spentHeight :: "int option"
  globalOutputIndex :: "nat option"
  outputIndex :: "nat option"
  compositeKey :: "string option"
  isStaking :: bool

record WalletSpend =
  spend_amount :: nat
  parentTransactionHash :: string
  spend_transactionIndex :: "nat option"
  spend_blockHeight :: int
  spend_timestamp :: int
  keyImage :: "string option"
  outputKey :: string
  spendingTxHash :: "string option"

record SyncedBlockInfo =
  block_blockHeight :: int
  blockHash :: string
  block_timestamp :: int
  transactions :: "string list"

text \<open>
  The processing context together with the two maps that \<open>processBlock\<close> and
  \<open>handleFork\<close> receive beside it.
\<close>

record tracker =
  outputs :: "(string \<times> WalletOutput) list"
  spends :: "(string \<times> WalletSpend) list"
  stakingTxHashes :: "string set"
  currentHeight :: int
  syncedBlocks :: "(int \<times> SyncedBlockInfo) list"
  blockCheckpoints :: "(int \<times> string) list"

text \<open>
  The test \<open>if (output.spentHeight)\<close>: an absent field and the number 0 are both
  false.
\<close>

fun truthy :: "int option \<Rightarrow> bool" where
  "truthy None = False"
| "truthy (Some n) = (n \<noteq> 0)"

definition MATURITY_BLOCKS :: int where "MATURITY_BLOCKS = 10"
definition UNLOCK_TIME_TIMESTAMP_THRESHOLD :: int where
  "UNLOCK_TIME_TIMESTAMP_THRESHOLD = 500000000"

text \<open>
  \<open>isOutputSpendable\<close>; \<open>currentTimestamp\<close> stands for
  \<open>Math.floor(Date.now() / 1000)\<close> at the time of the call.
\<close>

definition isOutputSpendable :: "int \<Rightarrow> int \<Rightarrow> int \<Rightarrow> int \<Rightarrow> int \<Rightarrow> bool" where
  "isOutputSpendable currentTimestamp blockHeight' unlockTime' blockTimestamp currentHeight' =
     (let matureHeight = currentHeight' - MATURITY_BLOCKS;
          maturityMet = (blockHeight' \<le> matureHeight)
      in if \<not> maturityMet then False
         else if unlockTime' = 0 then True
         else if unlockTime' < UNLOCK_TIME_TIMESTAMP_THRESHOLD then currentHeight' \<ge> unlockTime'
         else currentTimestamp \<ge> unlockTime')"

text \<open>
  Amounts are added as JavaScript numbers, IEEE doubles: the sum of two natural numbers
  is the nearest double to their exact sum, the one with the even significand when two
  are equally near. \<open>bitLength\<close> is the number of binary digits; a double keeps 53
  of them. (Sums beyond the largest finite double are not modelled.)
\<close>

fun bitLength :: "nat \<Rightarrow> nat" where
  "bitLength n = (if n = 0 then 0 else Suc (bitLength (n div 2)))"

declare bitLength.simps [simp del]

definition roundToDouble :: "nat \<Rightarrow> nat" where
  "roundToDouble x =
     (let e = bitLength x - 53;
          q = x div 2 ^ e;
          r = x mod 2 ^ e;
          half = 2 ^ (e - 1)
      in if e = 0 then x
         else if r > half \<or> (r = half \<and> odd q) then (q + 1) * 2 ^ e
         else q * 2 ^ e)"

definition number_add :: "nat \<Rightarrow> nat \<Rightarrow> nat" where
  "number_add a b = roundToDouble (a + b)"


record balances =
  available :: nat
  locked :: nat
  stakingLocked :: nat

text \<open>The sum of the three figures.\<close>

definition total :: "balances \<Rightarrow> nat" where
  "total b = available b + locked b + stakingLocked b"

text \<open>One pass of the loop of \<open>recalculateBalances\<close> over the outputs.\<close>

definition recalculate_step ::
  "int \<Rightarrow> string set \<Rightarrow> int \<Rightarrow> WalletOutput \<Rightarrow> balances \<Rightarrow> balances" where
  "recalculate_step currentTimestamp staking currentHeight' output b =
     (if truthy (spentHeight output) then b
      else
        let unlockMet = isOutputSpendable currentTimestamp (blockHeight output)
                          (unlockTime output) 0 currentHeight'
        in if unlockMet then b\<lparr>available := number_add (available b) (amount output)\<rparr>
           else
             let isStakingOutput = (isStaking output \<or> transactionHash output \<in> staking)
             in if isStakingOutput
                then b\<lparr>stakingLocked := number_add (stakingLocked b) (amount output)\<rparr>
                else b\<lparr>locked := number_add (locked b) (amount output)\<rparr>)"

definition recalculateBalances :: "int \<Rightarrow> tracker \<Rightarrow> balances" where
  "recalculateBalances currentTimestamp ctx =
     fold (recalculate_step currentTimestamp (stakingTxHashes ctx) (currentHeight ctx))
       (map snd (outputs ctx)) \<lparr>available = 0, locked = 0, stakingLocked = 0\<rparr>"

text \<open>One pass of the loop of \<open>getStakingLockedBalance\<close>.\<close>

definition stakingLocked_step ::
  "int \<Rightarrow> string set \<Rightarrow> int \<Rightarrow> WalletOutput \<Rightarrow> nat \<Rightarrow> nat" where
  "stakingLocked_step currentTimestamp staking currentHeight' output stakingLocked' =
     (if truthy (spentHeight output) then stakingLocked'
      else
        let isStakingOutput = (isStaking output \<or> transactionHash output \<in> staking)
        in if isStakingOutput
           then
             let unlockMet = isOutputSpendable currentTimestamp (blockHeight output)
                               (unlockTime output) 0 currentHeight'
             in if \<not> unlockMet then number_add stakingLocked' (amount output)
                else stakingLocked'
           else stakingLocked')"

definition getStakingLockedBalance :: "int \<Rightarrow> tracker \<Rightarrow> nat" where
  "getStakingLockedBalance currentTimestamp ctx =
     fold (stakingLocked_step currentTimestamp (stakingTxHashes ctx) (currentHeight ctx))
       (map snd (outputs ctx)) 0"

definition getUnspentOutputs :: "WalletOutput list \<Rightarrow> WalletOutput list" where
  "getUnspentOutputs allOutputs = filter (\<lambda>out. \<not> truthy (spentHeight out)) allOutputs"

definition getAvailableOutputs ::
  "int \<Rightarrow> WalletOutput list \<Rightarrow> string set \<Rightarrow> int \<Rightarrow> WalletOutput list" where
  "getAvailableOutputs currentTimestamp allOutputs staking currentHeight' =
     filter (\<lambda>out. if isStaking out \<or> transactionHash out \<in> staking then False
                 else isOutputSpendable currentTimestamp (blockHeight out) (unlockTime out) 0
                        currentHeight')
       (getUnspentOutputs allOutputs)"

definition getLockedOutputs ::
  "int \<Rightarrow> WalletOutput list \<Rightarrow> string set \<Rightarrow> int \<Rightarrow> WalletOutput list" where
  "getLockedOutputs currentTimestamp allOutputs staking currentHeight' =
     filter (\<lambda>out. if isStaking out \<or> transactionHash out \<in> staking then False
                 else \<not> isOutputSpendable currentTimestamp (blockHeight out) (unlockTime out) 0
                        currentHeight')
       (getUnspentOutputs allOutputs)"

text \<open>
  \<open>handleFork\<close>: each loop deletes from a map the entries at or above the fork height
  (deleting the entry under the iterator is safe in a \<open>Map\<close>); then the current height
  is reset.
\<close>

definition handleFork :: "int \<Rightarrow> tracker \<Rightarrow> tracker" where
  "handleFork forkHeight ctx =
     ctx\<lparr>syncedBlocks := filter (\<lambda>(height, block). \<not> height \<ge> forkHeight) (syncedBlocks ctx),
         outputs := filter (\<lambda>(key, output). \<not> blockHeight output \<ge> forkHeight) (outputs ctx),
         spends := filter (\<lambda>(key, spend). \<not> spend_blockHeight spend \<ge> forkHeight) (spends ctx),
         blockCheckpoints :=
           filter (\<lambda>(height, hash). \<not> height \<ge> forkHeight) (blockCheckpoints ctx),
         currentHeight := max 0 (forkHeight - 1)\<rparr>"

text \<open>A tracker state used to instantiate the theorems about rollback and balances.\<close>

definition sampleOutput :: WalletOutput where
  "sampleOutput =
     \<lparr>key = ''OWN'', amount = 5000, blockHeight = 100, timestamp = 0,
      transactionHash = ''h0'', transactionIndex = 0, unlockTime = 0,
      transactionPublicKey = '''', isSpendable = False, spentHeight = None,
      globalOutputIndex = None, outputIndex = Some 0, compositeKey = Some ''h0:0'',
      isStaking = False\<rparr>"

definition sampleSpend :: WalletSpend where
  "sampleSpend =
     \<lparr>spend_amount = 5000, parentTransactionHash = ''h0'', spend_transactionIndex = Some 0,
      spend_blockHeight = 105, spend_timestamp = 0, keyImage = None, outputKey = ''h0:0'',
      spendingTxHash = Some ''t1''\<rparr>"

definition sampleTracker :: tracker where
  "sampleTracker =
     \<lparr>outputs = [(''h0:0'', sampleOutput\<lparr>spentHeight := Some 105\<rparr>),
                 (''h1:0'', sampleOutput\<lparr>transactionHash := ''h1'', blockHeight := 104,
                                          amount := 70\<rparr>),
                 (''h2:0'', sampleOutput\<lparr>transactionHash := ''h2'', blockHeight := 101,
                                          amount := 9\<rparr>)],
      spends = [(''h0:0'', sampleSpend)],
      stakingTxHashes = {},
      currentHeight = 105,
      syncedBlocks = [(104, \<lparr>block_blockHeight = 104, blockHash = ''b104'', block_timestamp = 0,
                              transactions = [''h1'']\<rparr>)],
      blockCheckpoints = [(102, ''b102''), (104, ''b104'')]\<rparr>"

section \<open>Staking: choosing outputs\<close>






section \<open>Staking: the preparation transaction\<close>




















section \<open>Bit operations on bytes\<close>

lemma and_0x7f: "(n::nat) AND 0x7f = n mod 128"
proof -
  have "n AND mask 7 = n mod 2 ^ 7"
    by (simp only: take_bit_eq_mask [symmetric] take_bit_eq_mod)
  moreover have "(mask 7 :: nat) = 127" by (simp add: mask_eq_exp_minus_1)
  ultimately show ?thesis by simp
qed

lemma and_0x80_zero: "((b::nat) AND 0x80 = 0) = even (b div 128)"
proof -
  have "(b AND 2 ^ 7 = 0) = (\<not> bit b 7)" by (rule and_exp_eq_0_iff_not_bit)
  then show ?thesis by (simp add: bit_iff_odd)
qed

lemma or_0x80: "(n mod 128) OR (0x80::nat) = n mod 128 + 128"
proof -
  have "\<not> bit (n mod 128) 7" by (simp add: bit_iff_odd)
  then have "(n mod 128) AND 2 ^ 7 = 0"
    using and_exp_eq_0_iff_not_bit [of "n mod 128" 7] by blast
  then have "n mod 128 + 2 ^ 7 = (n mod 128) OR 2 ^ 7" by (rule disjunctive_add_eq_or)
  then show ?thesis by simp
qed

lemma split_low7_nat: "(n::nat) = (n mod 128) OR push_bit 7 (n div 128)"
proof -
  have "take_bit 7 n AND push_bit 7 (drop_bit 7 n) = 0"
    by (rule bit_eqI) (auto simp: bit_simps)
  then have "take_bit 7 n + push_bit 7 (drop_bit 7 n) = take_bit 7 n OR push_bit 7 (drop_bit 7 n)"
    by (rule disjunctive_add_eq_or)
  moreover have "push_bit 7 (drop_bit 7 n) + take_bit 7 n = n" by (rule bits_ident)
  ultimately have "take_bit 7 n OR push_bit 7 (drop_bit 7 n) = n" by simp
  then show ?thesis by (simp add: take_bit_eq_mod drop_bit_eq_div)
qed

lemma split_low7_word:
  "(word_of_nat n :: 32 word) = word_of_nat (n mod 128) OR push_bit 7 (word_of_nat (n div 128))"
proof -
  have "(word_of_nat n :: 32 word) = word_of_nat ((n mod 128) OR push_bit 7 (n div 128))"
    using split_low7_nat [of n] by simp
  then show ?thesis by (simp only: of_nat_or_eq of_nat_push_bit)
qed

lemma sint_word_of_nat_small:
  assumes "n < 2 ^ 31"
  shows "sint (word_of_nat n :: 32 word) = int n"
proof -
  have "sint (word_of_int (int n) :: 32 word) = signed_take_bit (32 - 1) (int n)"
    by (simp only: sint_sbintrunc' len_of_numeral_defs) simp
  also have "\<dots> = int n"
    using assms by (intro signed_take_bit_int_eq_self) simp_all
  finally show ?thesis by simp
qed

section \<open>The transaction module's writer and reader\<close>

lemma writeVarint_small: "n < 128 \<Longrightarrow> writeVarint n = [n]"
  by (subst writeVarint.simps) (simp add: and_0x7f)

lemma writeVarint_large:
  "128 \<le> n \<Longrightarrow> writeVarint n = (n mod 128 + 128) # writeVarint (n div 128)"
  by (subst writeVarint.simps) (simp add: and_0x7f or_0x80 drop_bit_eq_div)

lemma high_group_div: "(n mod 128 + 128) div 128 = (1::nat)"
  by (simp add: div_add_self2)

lemma decodeVarint_loop_writeVarint:
  "shift < 32 \<Longrightarrow> n < 2 ^ (32 - shift) \<Longrightarrow>
   decodeVarint_loop (writeVarint n @ rest) v shift k =
     \<lparr>val = sint (v OR push_bit shift (word_of_nat n)),
      bytesRead = k + length (writeVarint n)\<rparr>"
proof (induction n arbitrary: v shift k rule: writeVarint.induct)
  case (1 n)
  show ?case
  proof (cases "128 \<le> n")
    case False
    then have "even (n div 128)" by simp
    with False 1(2) show ?thesis
      by (simp add: writeVarint_small and_0x80_zero and_0x7f)
  next
    case True
    note w = writeVarint_large [OF True]
    have c: "odd ((n mod 128 + 128) div 128)" by (simp only: high_group_div) simp
    have m: "(n mod 128 + 128) mod 128 = n mod 128" by simp
    from True 1(3) have "2 ^ 7 < (2::nat) ^ (32 - shift)" by simp
    then have "7 < 32 - shift" by (simp only: power_strict_increasing_iff)
    then have s7: "shift + 7 < 32" by simp
    then have e: "32 - shift = 7 + (32 - (shift + 7))" by simp
    have "n < 2 ^ 7 * 2 ^ (32 - (shift + 7))" using 1(3) by (simp only: e power_add)
    then have d: "n div 128 < 2 ^ (32 - (shift + 7))"
      by (simp add: less_mult_imp_div_less mult.commute)
    have ih: "decodeVarint_loop (writeVarint (n div 128) @ rest) v' (shift + 7) k' =
        \<lparr>val = sint (v' OR push_bit (shift + 7) (word_of_nat (n div 128))),
         bytesRead = k' + length (writeVarint (n div 128))\<rparr>" for v' k'
      using 1(1) [OF True s7] d by (simp add: drop_bit_eq_div)
    have j: "(v OR push_bit shift (word_of_nat (n mod 128)))
               OR push_bit (shift + 7) (word_of_nat (n div 128))
             = v OR push_bit shift (word_of_nat n :: 32 word)"
      by (subst (3) split_low7_word) (simp add: push_bit_or push_bit_push_bit or.assoc add.commute)
    show ?thesis using 1(2)
      by (simp add: w and_0x80_zero and_0x7f c m ih j)
  qed
qed

lemma decodeVarint_writeVarint:
  assumes "n < 2 ^ 31"
  shows "decodeVarint (writeVarint n) 0 = \<lparr>val = int n, bytesRead = length (writeVarint n)\<rparr>"
proof -
  have "n < 2 ^ (32 - 0)" using assms by simp
  then have "decodeVarint_loop (writeVarint n @ []) 0 0 0 =
     \<lparr>val = sint (0 OR push_bit 0 (word_of_nat n :: 32 word)),
      bytesRead = 0 + length (writeVarint n)\<rparr>"
    by (intro decodeVarint_loop_writeVarint) simp_all
  then show ?thesis
    using sint_word_of_nat_small [OF assms] by (simp add: decodeVarint_def)
qed

lemma varintValue_writeVarint: "varintValue (writeVarint n) = n"
proof (induction n rule: writeVarint.induct)
  case (1 n)
  show ?case
  proof (cases "128 \<le> n")
    case False
    then show ?thesis by (simp add: writeVarint_small)
  next
    case True
    with 1 have "varintValue (writeVarint (n div 128)) = n div 128"
      by (simp add: drop_bit_eq_div)
    then show ?thesis by (simp add: writeVarint_large [OF True])
  qed
qed

lemma wellFormedVarint_Cons:
  "wellFormedVarint (b # bs) = (if bs = [] then b < 128 else 128 \<le> b \<and> b < 256 \<and> wellFormedVarint bs)"
  by (cases bs) simp_all

lemma writeVarint_not_Nil: "writeVarint n \<noteq> []"
  by (subst writeVarint.simps) simp

lemma wellFormedVarint_writeVarint: "wellFormedVarint (writeVarint n)"
proof (induction n rule: writeVarint.induct)
  case (1 n)
  show ?case
  proof (cases "128 \<le> n")
    case False
    then show ?thesis by (simp add: writeVarint_small)
  next
    case True
    with 1 have "wellFormedVarint (writeVarint (n div 128))"
      by (simp add: drop_bit_eq_div)
    then show ?thesis
      by (simp add: writeVarint_large [OF True] wellFormedVarint_Cons writeVarint_not_Nil)
  qed
qed

lemma varintValue_bound: "varintValue bs < 128 ^ length bs"
proof (induction bs)
  case Nil
  show ?case by simp
next
  case (Cons b bs)
  have "b mod 128 + 128 * varintValue bs < 128 + 128 * varintValue bs" by simp
  also have "\<dots> = 128 * Suc (varintValue bs)" by simp
  also have "\<dots> \<le> 128 * 128 ^ length bs"
    using Cons by (simp only: mult_le_cancel1 Suc_le_eq) simp
  finally show ?case by simp
qed

lemma length_writeVarint_le:
  "n < 128 ^ Suc k \<Longrightarrow> length (writeVarint n) \<le> Suc k"
proof (induction n arbitrary: k rule: writeVarint.induct)
  case (1 n)
  show ?case
  proof (cases "128 \<le> n")
    case False
    then show ?thesis by (simp add: writeVarint_small)
  next
    case True
    with 1(2) obtain k' where k: "k = Suc k'" by (cases k) auto
    from 1(2) have "n div 128 < 128 ^ Suc k'"
      unfolding k by (simp add: less_mult_imp_div_less mult.commute)
    with 1(1) [OF True, of k'] have "length (writeVarint (n div 128)) \<le> Suc k'"
      by (simp add: drop_bit_eq_div)
    then show ?thesis by (simp add: writeVarint_large [OF True] k)
  qed
qed

lemma writeVarint_minimal:
  assumes "wellFormedVarint bs" and "varintValue bs = n"
  shows "length (writeVarint n) \<le> length bs"
proof -
  from assms(1) obtain k where k: "length bs = Suc k" by (cases bs) auto
  have "n < 128 ^ Suc k" using varintValue_bound [of bs] assms(2) k by simp
  then show ?thesis using length_writeVarint_le k by simp
qed

lemma writeVarint_vectors:
  "writeVarint 0 = [0x00]" "writeVarint 127 = [0x7F]" "writeVarint 128 = [0x80, 0x01]"
  "writeVarint 518785 = [0x81, 0xD5, 0x1F]" "writeVarint 16383 = [0xFF, 0x7F]"
  by (simp_all add: writeVarint_small writeVarint_large)

text \<open>
  Claim C2, on the code. For every value \<open>n\<close> below \<open>2^31\<close>, decoding the
  bytes written for \<open>n\<close> gives back \<open>n\<close> and consumes all of them; from
  \<open>2^31\<close> on the reader, which accumulates in 32 bits, does not. For every natural
  number \<open>n\<close> that reaches the writer (it is handed a JavaScript number) the bytes
  written are a well-formed base-128 little-endian varint of value \<open>n\<close>, and no
  well-formed varint of value \<open>n\<close> is shorter. The writer produces \<open>[0x00]\<close> for 0, \<open>[0x7F]\<close> for 127,
  \<open>[0x80, 0x01]\<close> for 128, \<open>[0x81, 0xD5, 0x1F]\<close> for 518785 and
  \<open>[0xFF, 0x7F]\<close> for 16383.
\<close>

theorem varint_roundtrip_canonical:
  "(n < 2 ^ 31 \<longrightarrow>
      decodeVarint (writeVarint n) 0 = \<lparr>val = int n, bytesRead = length (writeVarint n)\<rparr>)
   \<and> wellFormedVarint (writeVarint n) \<and> varintValue (writeVarint n) = n
   \<and> (\<forall>bs. wellFormedVarint bs \<and> varintValue bs = n \<longrightarrow> length (writeVarint n) \<le> length bs)
   \<and> writeVarint 0 = [0x00] \<and> writeVarint 127 = [0x7F] \<and> writeVarint 128 = [0x80, 0x01]
   \<and> writeVarint 518785 = [0x81, 0xD5, 0x1F] \<and> writeVarint 16383 = [0xFF, 0x7F]"
proof -
  have "n < 2 ^ 31 \<longrightarrow>
      decodeVarint (writeVarint n) 0 = \<lparr>val = int n, bytesRead = length (writeVarint n)\<rparr>"
    using decodeVarint_writeVarint [of n] by blast
  moreover have "\<forall>bs. wellFormedVarint bs \<and> varintValue bs = n \<longrightarrow> length (writeVarint n) \<le> length bs"
    using writeVarint_minimal [of _ n] by blast
  ultimately show ?thesis
    by (simp add: wellFormedVarint_writeVarint varintValue_writeVarint writeVarint_vectors)
qed

theorem varint_roundtrip_canonical_witness:
  "(300::nat) < 2 ^ 31
   \<and> decodeVarint (writeVarint 300) 0 = \<lparr>val = 300, bytesRead = length (writeVarint 300)\<rparr>
   \<and> wellFormedVarint [0xAC, 0x02] \<and> varintValue [0xAC, 0x02] = 300
   \<and> length (writeVarint 300) \<le> length [0xAC, 0x02 :: nat]"
proof -
  have small: "(300::nat) < 2 ^ 31" by simp
  have enc: "wellFormedVarint [0xAC, 0x02] \<and> varintValue [0xAC, 0x02] = 300" by simp
  note t = varint_roundtrip_canonical [of 300]
  from t small
  have "decodeVarint (writeVarint 300) 0 = \<lparr>val = int 300, bytesRead = length (writeVarint 300)\<rparr>"
    by blast
  moreover from t enc
  have "length (writeVarint 300) \<le> length [0xAC, 0x02 :: nat]" by blast
  ultimately show ?thesis using small enc by simp
qed

text \<open>
  Claim C2 as stated fails twice: the reader accumulates in 32-bit signed arithmetic, so
  the value \<open>2^31\<close> comes back negative; and the bytes written for 518785 are not
  \<open>[0x81, 0xB5, 0x1F]\<close>.
\<close>

theorem varint_roundtrip_counterexample:
  "val (decodeVarint (writeVarint 2147483648) 0) \<noteq> 2147483648
   \<and> writeVarint 518785 \<noteq> [0x81, 0xB5, 0x1F]"
proof -
  have "writeVarint 2147483648 = [0x80, 0x80, 0x80, 0x80, 0x08]"
    by (simp add: writeVarint_large writeVarint_small)
  then have "decodeVarint (writeVarint 2147483648) 0 = \<lparr>val = - 2147483648, bytesRead = 5\<rparr>"
    by (simp add: decodeVarint_def and_0x80_zero and_0x7f)
  then show ?thesis by (simp add: writeVarint_vectors)
qed

section \<open>The staking module's writer against the transaction module's\<close>

lemma staking_writeVarint_loop_last:
  "n div 128 < 128 \<Longrightarrow> staking_writeVarint_loop n = [n mod 128 + 128]"
  by (subst staking_writeVarint_loop.simps) (simp add: and_0x7f or_0x80 drop_bit_eq_div)

lemma staking_writeVarint_loop_more:
  "128 \<le> n div 128 \<Longrightarrow>
   staking_writeVarint_loop n = (n mod 128 + 128) # staking_writeVarint_loop (n div 128)"
  by (subst staking_writeVarint_loop.simps) (simp add: and_0x7f or_0x80 drop_bit_eq_div)

lemma length_staking_writeVarint_loop:
  "128 \<le> n \<Longrightarrow> Suc (length (staking_writeVarint_loop n)) = length (writeVarint n)"
proof (induction n rule: writeVarint.induct)
  case (1 n)
  show ?case
  proof (cases "128 \<le> n div 128")
    case False
    then show ?thesis
      using 1(2) by (simp add: staking_writeVarint_loop_last writeVarint_large writeVarint_small)
  next
    case True
    with 1 have "Suc (length (staking_writeVarint_loop (n div 128))) = length (writeVarint (n div 128))"
      by (simp add: drop_bit_eq_div)
    then show ?thesis
      using 1(2) True by (simp add: staking_writeVarint_loop_more writeVarint_large)
  qed
qed

lemma staking_writeVarint_loop_not_Nil: "staking_writeVarint_loop n \<noteq> []"
  by (subst staking_writeVarint_loop.simps) simp

lemma staking_writeVarint_shorter:
  "128 \<le> n \<Longrightarrow> Suc (length (staking_writeVarint n)) = length (writeVarint n)"
  using length_staking_writeVarint_loop [of n] staking_writeVarint_loop_not_Nil [of n]
  by (simp add: staking_writeVarint_def Let_def)

lemma staking_writeVarint_small: "n < 128 \<Longrightarrow> staking_writeVarint n = writeVarint n"
  by (simp add: staking_writeVarint_def staking_writeVarint_loop_last writeVarint_small and_0x7f)

text \<open>
  Claim C3, on the code. The module-level writer of the staking module agrees with the
  transaction module's writer exactly on the values below 128; from 128 on it loses the
  highest group. It writes \<open>[0x00]\<close> for 128 and \<open>[0x81, 0x55]\<close> for 518785, where
  the transaction module writes \<open>[0x80, 0x01]\<close> and \<open>[0x81, 0xD5, 0x1F]\<close>.
\<close>

theorem staking_writeVarint_differs:
  "(staking_writeVarint n = writeVarint n) = (n < 128)
   \<and> staking_writeVarint 128 = [0x00] \<and> writeVarint 128 = [0x80, 0x01]
   \<and> staking_writeVarint 518785 = [0x81, 0x55] \<and> writeVarint 518785 = [0x81, 0xD5, 0x1F]"
proof -
  have "(staking_writeVarint n = writeVarint n) = (n < 128)"
  proof (cases "n < 128")
    case True
    then show ?thesis by (simp add: staking_writeVarint_small)
  next
    case False
    then have "length (staking_writeVarint n) \<noteq> length (writeVarint n)"
      using staking_writeVarint_shorter [of n] by simp
    with False show ?thesis by auto
  qed
  moreover have "staking_writeVarint 128 = [0x00]" "staking_writeVarint 518785 = [0x81, 0x55]"
    by (simp_all add: staking_writeVarint_def staking_writeVarint_loop_last
        staking_writeVarint_loop_more and_0x7f)
  ultimately show ?thesis by (simp add: writeVarint_vectors)
qed

section \<open>Hex strings and the bytes they denote\<close>

lemma less_16_cases:
  "n < 16 \<Longrightarrow> n \<in> {0, 1, 2, 3, 4, 5, 6, 7, 8, 9, 10, 11, 12, 13, 14, 15 :: nat}"
  by simp arith

lemma hexDigit_hexChar: "n < 16 \<Longrightarrow> hexDigit (hexChar n) = Some n"
  by (drule less_16_cases) (auto simp: hexDigit_def hexChar_def Let_def)

lemma toUint8_parseInt16_hexChar:
  "toUint8 (parseInt16 (hexChar (unat b div 16)) (hexChar (unat b mod 16))) = b"
proof -
  have "unat b < 256" using unsigned_less [of b, where ?'a = nat] by simp
  then have "unat b div 16 < 16" by simp
  then show ?thesis
    by (simp add: parseInt16_def hexDigit_hexChar toUint8_def)
qed

lemma hexToBytes_bytesToHex: "hexToBytes (bytesToHex bs) = bs"
  by (induction bs) (simp_all add: bytesToHex_def toUint8_parseInt16_hexChar)


lemma bytesToHex_inject: "bytesToHex a = bytesToHex b \<Longrightarrow> a = b"
  by (metis hexToBytes_bytesToHex)

section \<open>Little-endian reading and writing\<close>

lemma andThen_simps [simp]:
  "andThen (Inl e) f = Inl e" "andThen (Inr v) f = f v"
  by (simp_all add: andThen_def)

lemma length_writeLE32 [simp]: "length (writeLE32 x) = 32"
  by (simp add: writeLE32_def)

lemma nth_writeLE32:
  "i < 32 \<Longrightarrow> uint (writeLE32 x ! i) = take_bit 8 (drop_bit (i * 8) x)"
proof -
  assume i: "i < 32"
  have m: "(255::int) = mask 8" by (simp add: mask_eq_exp_minus_1)
  have "writeLE32 x ! i = word_of_int (drop_bit (i * 8) x AND 0xff)"
    using i by (simp add: writeLE32_def del: upt_Suc)
  then show ?thesis
    by (simp only: m take_bit_eq_mask [symmetric] uint_word_of_int_eq) simp
qed

lemma fold_readLE:
  "n \<le> 32 \<Longrightarrow>
   fold (\<lambda>i num. num OR push_bit (i * 8) (uint (writeLE32 x ! i))) [0..<n] 0
     = take_bit (n * 8) x"
proof (induction n)
  case 0
  show ?case by simp
next
  case (Suc n)
  then have n: "n < 32" by simp
  have "take_bit (n * 8) x OR push_bit (n * 8) (take_bit 8 (drop_bit (n * 8) x))
          = take_bit (Suc n * 8) x"
    by (rule bit_eqI) (auto simp: bit_simps)
  with Suc n show ?case by (simp add: nth_writeLE32)
qed

lemma readLE32_writeLE32:
  assumes "0 \<le> x" and "x < 2 ^ 256"
  shows "readLE32 (writeLE32 x) = Inr x"
proof -
  have "take_bit (32 * 8) x = x"
    using assms by (simp add: take_bit_int_eq_self)
  then show ?thesis
    using fold_readLE [of 32 x] by (simp add: readLE32_def foldLE32_def del: upt_Suc)
qed

lemma bigint_rem_nonneg:
  "0 \<le> a \<Longrightarrow> 0 < b \<Longrightarrow> bigint_rem a b = a mod b"
  by (cases "a = 0") (simp_all add: bigint_rem_def minus_mult_div_eq_mod)

lemma CURVE_ORDER_pos: "0 < CURVE_ORDER"
  by (simp add: CURVE_ORDER_def)

lemma CURVE_ORDER_less: "CURVE_ORDER < 2 ^ 256"
  by (simp add: CURVE_ORDER_def)

section \<open>Reduction modulo the group order\<close>

lemma leValue_bounds: "0 \<le> leValue bs \<and> leValue bs < 256 ^ length bs"
proof (induction bs)
  case Nil
  show ?case by simp
next
  case (Cons b bs)
  have "uint b < 256" using uint_bounded [of b] by simp
  moreover have "0 \<le> uint b" by simp
  moreover from Cons have "256 * leValue bs \<le> 256 * (256 ^ length bs - 1)" by simp
  ultimately show ?case using Cons by (simp add: algebra_simps)
qed

lemma pow256: "(256::int) ^ n = 2 ^ (n * 8)"
proof -
  have "(2::int) ^ (8 * n) = (2 ^ 8) ^ n" by (rule power_mult)
  then show ?thesis by (simp add: mult.commute)
qed

lemma leValue_snoc: "leValue (bs @ [b]) = leValue bs + push_bit (length bs * 8) (uint b)"
proof (induction bs)
  case Nil
  show ?case by simp
next
  case (Cons a bs)
  have "(256::int) * 2 ^ (length bs * 8) = 2 ^ (Suc (length bs) * 8)"
    by (simp only: pow256 [symmetric]) simp
  then have "256 * push_bit (length bs * 8) (uint b) = push_bit (Suc (length bs) * 8) (uint b)"
    by (simp only: push_bit_eq_mult) (simp add: algebra_simps)
  with Cons show ?case by (simp add: algebra_simps)
qed

lemma or_push_bit_disjoint:
  fixes a b :: int
  assumes "0 \<le> a" and "a < 2 ^ m"
  shows "a OR push_bit m b = a + push_bit m b"
proof -
  have t: "take_bit m a = a" using assms by (simp add: take_bit_int_eq_self)
  have "take_bit m a AND push_bit m b = 0"
    by (rule bit_eqI) (auto simp: bit_simps)
  then have "a AND push_bit m b = 0" by (simp only: t)
  then show ?thesis by (rule disjunctive_add_eq_or [symmetric])
qed

lemma fold_leValue:
  "n \<le> length bs \<Longrightarrow>
   fold (\<lambda>i num. num OR push_bit (i * 8) (uint (bs ! i))) [0..<n] 0 = leValue (take n bs)"
proof (induction n)
  case 0
  show ?case by simp
next
  case (Suc n)
  then have n: "n < length bs" by simp
  have b: "0 \<le> leValue (take n bs) \<and> leValue (take n bs) < 2 ^ (n * 8)"
    using leValue_bounds [of "take n bs"] n by (simp add: pow256)
  have "take (Suc n) bs = take n bs @ [bs ! n]" using n by (rule take_Suc_conv_app_nth)
  then have "leValue (take (Suc n) bs) = leValue (take n bs) + push_bit (n * 8) (uint (bs ! n))"
    using n by (simp add: leValue_snoc)
  with Suc n b show ?case by (simp add: or_push_bit_disjoint)
qed

lemma leValue_replicate_0: "leValue (replicate n 0) = 0"
  by (induction n) simp_all

lemma leValue_append_zeros: "leValue (bs @ replicate n 0) = leValue bs"
  by (induction bs) (simp_all add: leValue_replicate_0)

lemma foldLE32_leValue: "32 \<le> length bs \<Longrightarrow> foldLE32 bs = leValue (take 32 bs)"
  unfolding foldLE32_def by (rule fold_leValue)

lemma readLE32_leValue: "32 \<le> length bs \<Longrightarrow> readLE32 bs = Inr (leValue (take 32 bs))"
  by (simp add: readLE32_def foldLE32_leValue)

lemma leValue_writeLE32:
  assumes "0 \<le> x" and "x < 2 ^ 256"
  shows "leValue (writeLE32 x) = x"
  using readLE32_writeLE32 [OF assms] readLE32_leValue [of "writeLE32 x"] by simp

lemma scalarToBigInt_writeLE32:
  "0 \<le> x \<Longrightarrow> x < CURVE_ORDER \<Longrightarrow> scalarToBigInt (writeLE32 x) = Inr x"
  using CURVE_ORDER_less by (simp add: scalarToBigInt_def readLE32_writeLE32)

lemma mod_CURVE_ORDER_range: "0 \<le> x mod CURVE_ORDER \<and> x mod CURVE_ORDER < CURVE_ORDER"
  using CURVE_ORDER_pos by simp

lemma scReduce32_leValue:
  assumes "length input = 64"
  shows "scReduce32 input = Inr (writeLE32 (leValue (take 32 input) mod CURVE_ORDER))"
proof -
  have "0 \<le> leValue (take 32 input)" using leValue_bounds by blast
  then show ?thesis
    using assms CURVE_ORDER_pos
    by (simp add: scReduce32_def readLE32_leValue bigint_rem_nonneg)
qed

lemma uint8_set_fresh:
  "length src = 32 \<Longrightarrow> uint8_set (replicate 64 0) src 0 = Inr (src @ replicate 32 0)"
  by (simp add: uint8_set_def)

lemma uint8_set_second:
  "length a = 32 \<Longrightarrow> length src = 32 \<Longrightarrow> uint8_set (a @ replicate 32 0) src 32 = Inr (a @ src)"
  by (simp add: uint8_set_def)

lemma hashToScalar_leValue:
  assumes "length (hexToBytes (keccak256 data)) = 32"
  shows "hashToScalar keccak256 data
           = Inr (writeLE32 (leValue (hexToBytes (keccak256 data)) mod CURVE_ORDER))"
  using assms
  by (simp add: hashToScalar_def Let_def uint8_set_fresh uint8_set_second scReduce32_leValue)




lemma sampleDigest_length: "length (hexToBytes (sampleDigest x)) = 32"
  by (simp add: sampleDigest_def hexToBytes_bytesToHex)

section \<open>Hashing to a scalar\<close>

text \<open>
  Claim C4. Let the digest of \<open>buf\<close> be the 32 bytes \<open>digest\<close>, which \<open>keccak256\<close>
  returns as their hex string. Then \<open>hashToScalar buf\<close> returns the 32-byte
  little-endian encoding of the digest's little-endian value modulo \<open>\<ell>\<close>: the result
  has 32 bytes, its value is that residue (the residue of the 64-byte value of the digest
  followed by 32 zero bytes), and it is what \<open>scReduce32\<close> returns on the digest
  followed by 32 zero bytes, although the code puts a second copy of the digest there.
\<close>

theorem hashToScalar_reduce32:
  assumes "keccak256 buf = bytesToHex digest" and "length digest = 32"
  shows "hashToScalar keccak256 buf
           = Inr (bigIntToScalar (leValue digest mod CURVE_ORDER))
         \<and> length (bigIntToScalar (leValue digest mod CURVE_ORDER)) = 32
         \<and> leValue (bigIntToScalar (leValue digest mod CURVE_ORDER))
             = leValue (digest @ replicate 32 0) mod CURVE_ORDER
         \<and> leValue (digest @ replicate 32 0) = leValue digest
         \<and> hashToScalar keccak256 buf = scReduce32 (digest @ replicate 32 0)"
proof -
  let ?r = "leValue digest mod CURVE_ORDER"
  have d: "hexToBytes (keccak256 buf) = digest"
    by (simp add: assms(1) hexToBytes_bytesToHex)
  have "?r < 2 ^ 256"
    using mod_CURVE_ORDER_range [of "leValue digest"] CURVE_ORDER_less by linarith
  then have "leValue (writeLE32 ?r) = ?r"
    using mod_CURVE_ORDER_range [of "leValue digest"] by (simp add: leValue_writeLE32)
  moreover have "scReduce32 (digest @ replicate 32 0) = Inr (writeLE32 ?r)"
    using assms(2) by (simp add: scReduce32_leValue)
  moreover have "hashToScalar keccak256 buf = Inr (writeLE32 ?r)"
    using hashToScalar_leValue [of keccak256 buf] assms(2) by (simp add: d)
  ultimately show ?thesis
    by (simp add: bigIntToScalar_def leValue_append_zeros)
qed

lemma sampleDigestHigh_value:
  "sampleDigestHigh [1, 2, 3]
     = bytesToHex (writeLE32
         115792089237316195423570985008687907853269984665640564039457584007913129442814)"
  by (simp add: sampleDigestHigh_def)

lemma leValue_sample_high:
  "leValue (writeLE32
       115792089237316195423570985008687907853269984665640564039457584007913129442814)
     = 115792089237316195423570985008687907853269984665640564039457584007913129442814"
  by (simp add: leValue_writeLE32)

theorem hashToScalar_reduce32_witness:
  "sampleDigestHigh [1, 2, 3]
     = bytesToHex (writeLE32
         115792089237316195423570985008687907853269984665640564039457584007913129442814)
   \<and> length (writeLE32
         115792089237316195423570985008687907853269984665640564039457584007913129442814) = 32
   \<and> CURVE_ORDER \<le> leValue (writeLE32
         115792089237316195423570985008687907853269984665640564039457584007913129442814)
   \<and> hashToScalar sampleDigestHigh [1, 2, 3]
       = Inr (bigIntToScalar
           7237005577332262213973186563042994240413239274941949949428319933631315677979)
   \<and> hashToScalar sampleDigestHigh [1, 2, 3]
       = scReduce32 (writeLE32
           115792089237316195423570985008687907853269984665640564039457584007913129442814
           @ replicate 32 0)"
proof -
  let ?d = "writeLE32
      115792089237316195423570985008687907853269984665640564039457584007913129442814"
  have l: "length ?d = 32" by simp
  have m: "leValue ?d mod CURVE_ORDER
      = 7237005577332262213973186563042994240413239274941949949428319933631315677979"
    unfolding leValue_sample_high by (simp add: CURVE_ORDER_def)
  have g: "CURVE_ORDER \<le> leValue ?d"
    unfolding leValue_sample_high by (simp add: CURVE_ORDER_def)
  note t = hashToScalar_reduce32 [of sampleDigestHigh "[1, 2, 3]" "?d",
      OF sampleDigestHigh_value l]
  from t have a: "hashToScalar sampleDigestHigh [1, 2, 3]
       = Inr (bigIntToScalar
           7237005577332262213973186563042994240413239274941949949428319933631315677979)"
    by (simp only: m)
  from t have b: "hashToScalar sampleDigestHigh [1, 2, 3] = scReduce32 (?d @ replicate 32 0)"
    by (elim conjE)
  show ?thesis by (intro conjI sampleDigestHigh_value l g a b)
qed

section \<open>Signing and verifying\<close>









lemma scalarToBigInt_nonneg: "scalarToBigInt bs = Inr x \<Longrightarrow> 0 \<le> x"
  using leValue_bounds [of "take 32 bs"]
  by (auto simp: scalarToBigInt_def readLE32_def foldLE32_leValue split: if_splits)

lemma list_all_refl_nth: "list_all (\<lambda>i. (c :: uint8array) ! i = c ! i) is"
  by (simp add: list_all_iff)














section \<open>Key images\<close>

lemma generateKeyImage_value:
  assumes "length (hexToBytes publicKey) = 32" and "length (hexToBytes privateKey) = 32"
    and "\<forall>x. length (hexToBytes (keccak256 x)) = 32"
    and "scalarToBigInt (hexToBytes privateKey) = Inr sec"
  shows "generateKeyImage ed keccak256 publicKey privateKey
           = andThen (multiply ed (Point_BASE ed)
                 (leValue (hexToBytes (keccak256 (hexToBytes (keccak256 (hexToBytes publicKey)))))
                    mod CURVE_ORDER)) (\<lambda>pointHP.
             andThen (multiply ed pointHP sec) (\<lambda>keyImagePoint.
             Inr (bytesToHex (Point_toRawBytes ed keyImagePoint))))"
  using assms mod_CURVE_ORDER_range
  by (simp add: generateKeyImage_def Let_def hashToScalar_leValue scalarToBigInt_writeLE32)

text \<open>
  Claim C5, on the code. \<open>generateKeyImage\<close> hashes the public key, then passes the
  digest to \<open>hashToScalar\<close>, which hashes again: the scalar \<open>h2\<close> that multiplies the
  base point is the reduced digest of the digest of the public key, not the reduced
  digest of the public key. When \<open>h2\<close> is not 0 and the private scalar lies strictly
  between 0 and \<open>\<ell>\<close>, the result is the encoding of \<open>sec\<cdot>(h2\<cdot>G)\<close>; in every other
  case the package refuses a scalar and \<open>generateKeyImage\<close> throws.
\<close>

theorem generateKeyImage_hashes_twice:
  assumes "length (hexToBytes publicKey) = 32" and "length (hexToBytes privateKey) = 32"
    and "\<forall>x. length (hexToBytes (keccak256 x)) = 32"
    and "scalarToBigInt (hexToBytes privateKey) = Inr sec"
    and "h2 = leValue (hexToBytes (keccak256 (hexToBytes (keccak256 (hexToBytes publicKey)))))
                mod CURVE_ORDER"
  shows "(h2 \<noteq> 0 \<and> 0 < sec \<and> sec < CURVE_ORDER \<longrightarrow>
            generateKeyImage ed keccak256 publicKey privateKey
              = Inr (bytesToHex (Point_toRawBytes ed
                  (Point_multiply ed (Point_multiply ed (Point_BASE ed) h2) sec))))
         \<and> (h2 = 0 \<or> sec = 0 \<or> CURVE_ORDER \<le> sec \<longrightarrow>
            generateKeyImage ed keccak256 publicKey privateKey = Inl InvalidScalar)"
proof -
  have r: "0 \<le> h2" "h2 < CURVE_ORDER"
    using mod_CURVE_ORDER_range by (simp_all add: assms(5))
  have s0: "0 \<le> sec" using assms(4) by (rule scalarToBigInt_nonneg)
  note v = generateKeyImage_value [OF assms(1-4), of ed, folded assms(5)]
  have a: "generateKeyImage ed keccak256 publicKey privateKey
              = Inr (bytesToHex (Point_toRawBytes ed
                  (Point_multiply ed (Point_multiply ed (Point_BASE ed) h2) sec)))"
    if "h2 \<noteq> 0" "0 < sec" "sec < CURVE_ORDER"
    using that r by (simp add: v multiply_def)
  have b: "generateKeyImage ed keccak256 publicKey privateKey = Inl InvalidScalar"
    if "h2 = 0 \<or> sec = 0 \<or> CURVE_ORDER \<le> sec"
    using that r s0 by (auto simp add: v multiply_def)
  from a b show ?thesis by blast
qed

lemma small_less_CURVE_ORDER: "(1::int) < CURVE_ORDER" "(2::int) < CURVE_ORDER"
  by (simp_all add: CURVE_ORDER_def)

lemma sample_key_image_facts:
  "length (hexToBytes (bytesToHex (replicate 32 (0 :: 8 word)))) = 32"
  "length (hexToBytes (bytesToHex (writeLE32 1))) = 32"
  "\<forall>x. length (hexToBytes (sampleDigest x)) = 32"
  "scalarToBigInt (hexToBytes (bytesToHex (writeLE32 1))) = Inr 1"
  using small_less_CURVE_ORDER
  by (simp_all add: hexToBytes_bytesToHex scalarToBigInt_writeLE32 sampleDigest_length)

lemma sample_double_digest:
  "leValue (hexToBytes (sampleDigest (hexToBytes (sampleDigest
      (hexToBytes (bytesToHex (replicate 32 0))))))) mod CURVE_ORDER = 2"
proof -
  have d1: "hexToBytes (sampleDigest (replicate 32 0)) = writeLE32 1"
    by (simp add: sampleDigest_def leValue_replicate_0 hexToBytes_bytesToHex)
  have v1: "leValue (writeLE32 1) = 1" by (simp add: leValue_writeLE32)
  have v2: "leValue (writeLE32 2) = 2" by (simp add: leValue_writeLE32)
  have d2: "hexToBytes (sampleDigest (writeLE32 1)) = writeLE32 2"
    by (simp add: sampleDigest_def v1 hexToBytes_bytesToHex)
  show ?thesis by (simp add: hexToBytes_bytesToHex d1 d2 v2 CURVE_ORDER_def)
qed

theorem generateKeyImage_hashes_twice_witness:
  "length (hexToBytes (bytesToHex (replicate 32 (0 :: 8 word)))) = 32
   \<and> length (hexToBytes (bytesToHex (writeLE32 1))) = 32
   \<and> scalarToBigInt (hexToBytes (bytesToHex (writeLE32 1))) = Inr 1
   \<and> leValue (hexToBytes (sampleDigest (hexToBytes (sampleDigest
        (hexToBytes (bytesToHex (replicate 32 0))))))) mod CURVE_ORDER = 2
   \<and> (1::int) < CURVE_ORDER
   \<and> generateKeyImage sampleGroup sampleDigest
         (bytesToHex (replicate 32 0)) (bytesToHex (writeLE32 1))
       = Inr (bytesToHex (Point_toRawBytes sampleGroup
               (Point_multiply sampleGroup
                 (Point_multiply sampleGroup (Point_BASE sampleGroup) 2) 1)))"
proof -
  note t = generateKeyImage_hashes_twice [OF sample_key_image_facts
      sample_double_digest [symmetric], of sampleGroup]
  from t small_less_CURVE_ORDER(1)
  have "generateKeyImage sampleGroup sampleDigest
         (bytesToHex (replicate 32 0)) (bytesToHex (writeLE32 1))
       = Inr (bytesToHex (Point_toRawBytes sampleGroup
               (Point_multiply sampleGroup
                 (Point_multiply sampleGroup (Point_BASE sampleGroup) 2) 1)))"
    by simp
  then show ?thesis
    by (intro conjI sample_key_image_facts(1,2,4) sample_double_digest
        small_less_CURVE_ORDER(1))
qed

text \<open>
  On the sample instance the two differ: for the public key of 32 zero bytes and the
  private scalar 1 the code returns the encoding of 2, the specification's formula the
  encoding of 1.
\<close>

theorem generateKeyImage_spec_counterexample:
  "generateKeyImage sampleGroup sampleDigest
       (bytesToHex (replicate 32 0)) (bytesToHex (writeLE32 1))
     \<noteq> keyImage_spec sampleGroup sampleDigest
       (bytesToHex (replicate 32 0)) (bytesToHex (writeLE32 1))"
proof -
  have d1: "hexToBytes (sampleDigest (replicate 32 0)) = writeLE32 1"
    by (simp add: sampleDigest_def leValue_replicate_0 hexToBytes_bytesToHex)
  have v1: "leValue (writeLE32 1) = 1" by (simp add: leValue_writeLE32)
  have v2: "leValue (writeLE32 2) = 2" by (simp add: leValue_writeLE32)
  have m1: "(1::int) mod CURVE_ORDER = 1" by (simp add: CURVE_ORDER_def)
  have m2: "(2::int) mod CURVE_ORDER = 2" by (simp add: CURVE_ORDER_def)
  have code: "generateKeyImage sampleGroup sampleDigest
       (bytesToHex (replicate 32 0)) (bytesToHex (writeLE32 1))
      = Inr (bytesToHex (writeLE32 2))"
    using small_less_CURVE_ORDER
    by (simp add: generateKeyImage_value [OF sample_key_image_facts] sample_double_digest
        multiply_def sampleGroup_def m2)
  have spec: "keyImage_spec sampleGroup sampleDigest
       (bytesToHex (replicate 32 0)) (bytesToHex (writeLE32 1))
      = Inr (bytesToHex (writeLE32 1))"
    using small_less_CURVE_ORDER sample_key_image_facts(4)
    by (simp add: keyImage_spec_def hashToScalar_leValue sampleDigest_length
        hexToBytes_bytesToHex d1 v1 m1 scalarToBigInt_writeLE32 multiply_def sampleGroup_def)
  have "writeLE32 2 \<noteq> writeLE32 1"
    using v1 v2 by auto
  then have "bytesToHex (writeLE32 2) \<noteq> bytesToHex (writeLE32 1)"
    using bytesToHex_inject by blast
  with code spec show ?thesis by simp
qed

section \<open>Balances\<close>

lemma bitLength_le: "x < 2 ^ n \<Longrightarrow> bitLength x \<le> n"
proof (induction n arbitrary: x)
  case 0
  then show ?case by (simp add: bitLength.simps)
next
  case (Suc n)
  show ?case
  proof (cases "x = 0")
    case True
    then show ?thesis by (simp add: bitLength.simps)
  next
    case False
    from Suc.prems have "x div 2 < 2 ^ n" by simp
    then have "bitLength (x div 2) \<le> n" by (rule Suc.IH)
    with False show ?thesis by (subst bitLength.simps) simp
  qed
qed

lemma bitLength_power: "bitLength (2 ^ n) = Suc n"
  by (induction n) (simp_all add: bitLength.simps [of "Suc 0"] bitLength.simps [of 0]
      bitLength.simps [of "2 * 2 ^ _"])

lemma roundToDouble_exact: "x \<le> 2 ^ 53 \<Longrightarrow> roundToDouble x = x"
proof (cases "x = 2 ^ 53")
  case True
  have "bitLength ((2::nat) ^ 53) - 53 = 1" unfolding bitLength_power by simp
  then have "roundToDouble (2 ^ 53) = 2 ^ 53"
    unfolding roundToDouble_def Let_def by (simp only:) simp
  with True show ?thesis by simp
next
  case False
  assume "x \<le> 2 ^ 53"
  with False have "x < 2 ^ 53" by simp
  then have "bitLength x \<le> 53" by (rule bitLength_le)
  then show ?thesis by (simp add: roundToDouble_def)
qed

lemma number_add_exact: "a + b \<le> 2 ^ 53 \<Longrightarrow> number_add a b = a + b"
  by (simp add: number_add_def roundToDouble_exact)


text \<open>Above \<open>2^53\<close> the sum of two amounts is rounded: \<open>2^53 + 1\<close> is \<open>2^53\<close>.\<close>

lemma number_add_rounds: "number_add (2 ^ 53) 1 = 2 ^ 53"
proof -
  have "(2::nat) ^ 53 + 1 < 2 ^ 54" by simp
  then have u: "bitLength (2 ^ 53 + 1) \<le> 54" by (rule bitLength_le)
  have "bitLength (2 ^ 53 + 1) = Suc (bitLength ((2 ^ 53 + 1) div 2))"
    by (subst bitLength.simps) simp
  also have "((2::nat) ^ 53 + 1) div 2 = 2 ^ 52" by simp
  finally have "bitLength (2 ^ 53 + 1) = 54" by (simp only: bitLength_power)
  then have e: "bitLength (2 ^ 53 + 1) - 53 = 1" by simp
  show ?thesis
    unfolding number_add_def roundToDouble_def Let_def by (simp only: e) simp
qed

lemma total_step:
  assumes "total b + (if truthy (spentHeight output) then 0 else amount output) \<le> 2 ^ 53"
  shows "total (recalculate_step ts staking h output b)
     = total b + (if truthy (spentHeight output) then 0 else amount output)"
proof (cases "truthy (spentHeight output)")
  case True
  then show ?thesis by (simp add: recalculate_step_def)
next
  case False
  with assms have "available b + amount output \<le> 2 ^ 53" "locked b + amount output \<le> 2 ^ 53"
    "stakingLocked b + amount output \<le> 2 ^ 53"
    by (simp_all add: total_def)
  with False show ?thesis
    by (simp add: recalculate_step_def total_def Let_def number_add_exact)
qed

lemma total_fold:
  "total b + sum_list (map amount (filter (\<lambda>out. \<not> truthy (spentHeight out)) os)) \<le> 2 ^ 53 \<Longrightarrow>
   total (fold (recalculate_step ts staking h) os b)
     = total b + sum_list (map amount (filter (\<lambda>out. \<not> truthy (spentHeight out)) os))"
proof (induction os arbitrary: b)
  case Nil
  show ?case by simp
next
  case (Cons out os)
  let ?a = "if truthy (spentHeight out) then 0 else amount out"
  let ?rest = "sum_list (map amount (filter (\<lambda>out. \<not> truthy (spentHeight out)) os))"
  from Cons.prems have bound: "total b + ?a + ?rest \<le> 2 ^ 53"
    by (cases "truthy (spentHeight out)") simp_all
  then have "total b + ?a \<le> 2 ^ 53" by simp
  then have step: "total (recalculate_step ts staking h out b) = total b + ?a"
    by (rule total_step)
  with bound have "total (recalculate_step ts staking h out b) + ?rest \<le> 2 ^ 53" by simp
  then have "total (fold (recalculate_step ts staking h) os (recalculate_step ts staking h out b))
      = total (recalculate_step ts staking h out b) + ?rest"
    by (rule Cons.IH)
  with step show ?case by simp
qed

lemma recalculateBalances_total:
  assumes "sum_list (map amount
      (filter (\<lambda>out. \<not> truthy (spentHeight out)) (map snd (outputs ctx)))) \<le> 2 ^ 53"
  shows "total (recalculateBalances ts ctx)
     = sum_list (map amount (filter (\<lambda>out. \<not> truthy (spentHeight out)) (map snd (outputs ctx))))"
proof -
  have z: "total \<lparr>available = 0, locked = 0, stakingLocked = 0\<rparr> = 0" by (simp add: total_def)
  show ?thesis
    unfolding recalculateBalances_def
    using total_fold [of "\<lparr>available = 0, locked = 0, stakingLocked = 0\<rparr>"
        "map snd (outputs ctx)" ts "stakingTxHashes ctx" "currentHeight ctx"] assms
    by (simp add: z)
qed

lemma unspent_test:
  "(\<lambda>out. \<not> truthy (spentHeight out))
     = (\<lambda>out :: WalletOutput. spentHeight out = None \<or> spentHeight out = Some 0)"
  by (rule ext) (case_tac "spentHeight out", simp_all)

text \<open>
  Claim C6, on the code. When the amounts of the outputs that the code's own test takes
  for unspent (those whose \<open>spentHeight\<close> is absent or 0) add up to at most \<open>2^53\<close>, so
  that no addition of the loop is rounded, the three figures of \<open>recalculateBalances\<close>
  add up to exactly that sum.
\<close>

theorem recalculateBalances_partition:
  assumes "sum_list (map amount
       (filter (\<lambda>out. spentHeight out = None \<or> spentHeight out = Some 0)
          (map snd (outputs ctx)))) \<le> 2 ^ 53"
  shows "available (recalculateBalances ts ctx) + locked (recalculateBalances ts ctx)
     + stakingLocked (recalculateBalances ts ctx)
   = sum_list (map amount
       (filter (\<lambda>out. spentHeight out = None \<or> spentHeight out = Some 0) (map snd (outputs ctx))))"
  using recalculateBalances_total [of ctx ts] assms
  by (simp add: total_def unspent_test)

theorem recalculateBalances_partition_witness:
  "sum_list (map amount
       (filter (\<lambda>out. spentHeight out = None \<or> spentHeight out = Some 0)
          (map snd (outputs sampleTracker)))) = 79
   \<and> (79::nat) \<le> 2 ^ 53
   \<and> available (recalculateBalances 0 sampleTracker) + locked (recalculateBalances 0 sampleTracker)
       + stakingLocked (recalculateBalances 0 sampleTracker) = 79"
proof -
  have s: "sum_list (map amount
       (filter (\<lambda>out. spentHeight out = None \<or> spentHeight out = Some 0)
          (map snd (outputs sampleTracker)))) = 79"
    by (simp add: sampleTracker_def sampleOutput_def)
  have b: "(79::nat) \<le> 2 ^ 53" by simp
  from recalculateBalances_partition [of sampleTracker 0, unfolded s, OF b]
  have r: "available (recalculateBalances 0 sampleTracker)
       + locked (recalculateBalances 0 sampleTracker)
       + stakingLocked (recalculateBalances 0 sampleTracker) = 79" .
  show ?thesis by (intro conjI s b r)
qed

text \<open>
  An output whose \<open>spentHeight\<close> is 0 (spent in the block of height 0) is set as spent
  and still counted: the three figures add up to its amount, while the outputs with no
  \<open>spentHeight\<close> add up to nothing.
\<close>

theorem recalculateBalances_partition_counterexample:
  "available (recalculateBalances 0
       (sampleTracker\<lparr>outputs := [(''h0:0'', sampleOutput\<lparr>blockHeight := 0, spentHeight := Some 0\<rparr>)]\<rparr>))
   + locked (recalculateBalances 0
       (sampleTracker\<lparr>outputs := [(''h0:0'', sampleOutput\<lparr>blockHeight := 0, spentHeight := Some 0\<rparr>)]\<rparr>))
   + stakingLocked (recalculateBalances 0
       (sampleTracker\<lparr>outputs := [(''h0:0'', sampleOutput\<lparr>blockHeight := 0, spentHeight := Some 0\<rparr>)]\<rparr>))
   = 5000
   \<and> sum_list (map amount (filter (\<lambda>out. spentHeight out = None)
         (map snd [(''h0:0'', sampleOutput\<lparr>blockHeight := 0, spentHeight := Some 0\<rparr>)]))) = 0"
  by (simp add: recalculateBalances_def recalculate_step_def isOutputSpendable_def
      sampleTracker_def sampleOutput_def MATURITY_BLOCKS_def Let_def number_add_exact)

section \<open>Rollback\<close>

lemma handleFork_outputs:
  "outputs (handleFork h ctx) = filter (\<lambda>(k, out). blockHeight out < h) (outputs ctx)"
  by (simp add: handleFork_def not_le)

lemma handleFork_spends:
  "spends (handleFork h ctx) = filter (\<lambda>(k, s). spend_blockHeight s < h) (spends ctx)"
  by (simp add: handleFork_def not_le)







lemma recalculate_step_spent:
  "truthy (spentHeight out) \<Longrightarrow> recalculate_step ts staking h out b = b"
  by (simp add: recalculate_step_def)

lemma fold_recalculate_step_remove:
  "truthy (spentHeight (snd e)) \<Longrightarrow>
   fold (recalculate_step ts staking h) (map snd (filter (\<lambda>e'. e' \<noteq> e) es)) b
     = fold (recalculate_step ts staking h) (map snd es) b"
  by (induction es arbitrary: b) (auto simp: recalculate_step_spent)

lemma recalculateBalances_remove_spent:
  "truthy (spentHeight (snd e)) \<Longrightarrow>
   recalculateBalances ts (ctx\<lparr>outputs := filter (\<lambda>e'. e' \<noteq> e) (outputs ctx)\<rparr>)
     = recalculateBalances ts ctx"
  by (simp add: recalculateBalances_def fold_recalculate_step_remove)

lemma fold_stakingLocked_remove:
  "truthy (spentHeight (snd e)) \<Longrightarrow>
   fold (stakingLocked_step ts staking h) (map snd (filter (\<lambda>e'. e' \<noteq> e) es)) b
     = fold (stakingLocked_step ts staking h) (map snd es) b"
  by (induction es arbitrary: b) (auto simp: stakingLocked_step_def)

lemma getStakingLockedBalance_remove_spent:
  "truthy (spentHeight (snd e)) \<Longrightarrow>
   getStakingLockedBalance ts (ctx\<lparr>outputs := filter (\<lambda>e'. e' \<noteq> e) (outputs ctx)\<rparr>)
     = getStakingLockedBalance ts ctx"
  by (simp add: getStakingLockedBalance_def fold_stakingLocked_remove)

lemma spent_not_listed:
  "truthy (spentHeight out) \<Longrightarrow>
   out \<notin> set (getUnspentOutputs os) \<and> out \<notin> set (getAvailableOutputs ts os staking h)
   \<and> out \<notin> set (getLockedOutputs ts os staking h)"
  by (simp add: getUnspentOutputs_def getAvailableOutputs_def getLockedOutputs_def)

text \<open>
  Claim C10. \<open>handleFork h\<close> leaves every output created below \<open>h\<close> in the map as it
  was, \<open>spentHeight\<close> included, and every output left after it is one of the outputs
  before it; the spend records at or above \<open>h\<close> are deleted. So an output created below
  \<open>h\<close> and marked spent (at whatever height, at or above \<open>h\<close> in particular) is still
  marked spent after the rollback and counts in no balance: the figures of
  \<open>recalculateBalances\<close> and \<open>getStakingLockedBalance\<close> are what they would be without
  it, and it is in none of the lists of unspent, available and locked outputs.
\<close>

theorem handleFork_keeps_spentHeight:
  "(\<forall>(k, out) \<in> set (outputs ctx). blockHeight out < h \<longrightarrow>
        (k, out) \<in> set (outputs (handleFork h ctx)))
   \<and> set (outputs (handleFork h ctx)) \<subseteq> set (outputs ctx)
   \<and> (\<forall>(k, s) \<in> set (spends ctx). h \<le> spend_blockHeight s \<longrightarrow>
        (k, s) \<notin> set (spends (handleFork h ctx)))
   \<and> (\<forall>(k, out) \<in> set (outputs ctx).
        blockHeight out < h \<and> truthy (spentHeight out) \<longrightarrow>
          recalculateBalances ts
              ((handleFork h ctx)\<lparr>outputs := filter (\<lambda>e. e \<noteq> (k, out)) (outputs (handleFork h ctx))\<rparr>)
            = recalculateBalances ts (handleFork h ctx)
          \<and> getStakingLockedBalance ts
              ((handleFork h ctx)\<lparr>outputs := filter (\<lambda>e. e \<noteq> (k, out)) (outputs (handleFork h ctx))\<rparr>)
            = getStakingLockedBalance ts (handleFork h ctx)
          \<and> out \<notin> set (getUnspentOutputs (map snd (outputs (handleFork h ctx))))
          \<and> out \<notin> set (getAvailableOutputs ts (map snd (outputs (handleFork h ctx)))
                           (stakingTxHashes (handleFork h ctx)) (currentHeight (handleFork h ctx)))
          \<and> out \<notin> set (getLockedOutputs ts (map snd (outputs (handleFork h ctx)))
                           (stakingTxHashes (handleFork h ctx)) (currentHeight (handleFork h ctx))))"
proof -
  have a: "\<forall>(k, out) \<in> set (outputs ctx). blockHeight out < h \<longrightarrow>
        (k, out) \<in> set (outputs (handleFork h ctx))"
    by (auto simp: handleFork_outputs)
  have b: "set (outputs (handleFork h ctx)) \<subseteq> set (outputs ctx)"
    by (auto simp: handleFork_outputs)
  have c: "\<forall>(k, s) \<in> set (spends ctx). h \<le> spend_blockHeight s \<longrightarrow>
        (k, s) \<notin> set (spends (handleFork h ctx))"
    by (auto simp: handleFork_spends)
  have d: "recalculateBalances ts
              ((handleFork h ctx)\<lparr>outputs := filter (\<lambda>e. e \<noteq> (k, out)) (outputs (handleFork h ctx))\<rparr>)
            = recalculateBalances ts (handleFork h ctx)
          \<and> getStakingLockedBalance ts
              ((handleFork h ctx)\<lparr>outputs := filter (\<lambda>e. e \<noteq> (k, out)) (outputs (handleFork h ctx))\<rparr>)
            = getStakingLockedBalance ts (handleFork h ctx)
          \<and> out \<notin> set (getUnspentOutputs (map snd (outputs (handleFork h ctx))))
          \<and> out \<notin> set (getAvailableOutputs ts (map snd (outputs (handleFork h ctx)))
                           (stakingTxHashes (handleFork h ctx)) (currentHeight (handleFork h ctx)))
          \<and> out \<notin> set (getLockedOutputs ts (map snd (outputs (handleFork h ctx)))
                           (stakingTxHashes (handleFork h ctx)) (currentHeight (handleFork h ctx)))"
    if "truthy (spentHeight out)" for k out
    using that recalculateBalances_remove_spent [of "(k, out)" ts "handleFork h ctx"]
      getStakingLockedBalance_remove_spent [of "(k, out)" ts "handleFork h ctx"]
      spent_not_listed [of out]
    by simp
  from a b c d show ?thesis by blast
qed

theorem handleFork_keeps_spentHeight_witness:
  "(''h0:0'', sampleOutput\<lparr>spentHeight := Some 105\<rparr>) \<in> set (outputs sampleTracker)
   \<and> blockHeight (sampleOutput\<lparr>spentHeight := Some 105\<rparr>) < 103
   \<and> truthy (spentHeight (sampleOutput\<lparr>spentHeight := Some 105\<rparr>))
   \<and> (''h0:0'', sampleSpend) \<in> set (spends sampleTracker) \<and> 103 \<le> spend_blockHeight sampleSpend
   \<and> (''h0:0'', sampleOutput\<lparr>spentHeight := Some 105\<rparr>) \<in> set (outputs (handleFork 103 sampleTracker))
   \<and> (''h0:0'', sampleSpend) \<notin> set (spends (handleFork 103 sampleTracker))
   \<and> recalculateBalances 0 (handleFork 103 sampleTracker)
       = recalculateBalances 0 ((handleFork 103 sampleTracker)
           \<lparr>outputs := [(''h2:0'', sampleOutput\<lparr>transactionHash := ''h2'', blockHeight := 101,
                                                amount := 9\<rparr>)]\<rparr>)
   \<and> sampleOutput\<lparr>spentHeight := Some 105\<rparr>
       \<notin> set (getUnspentOutputs (map snd (outputs (handleFork 103 sampleTracker))))"
proof -
  let ?o = "sampleOutput\<lparr>spentHeight := Some 105\<rparr>"
  have m: "(''h0:0'', ?o) \<in> set (outputs sampleTracker)" by (simp add: sampleTracker_def)
  have bh: "blockHeight ?o < 103" by (simp add: sampleOutput_def)
  have sp: "truthy (spentHeight ?o)" by simp
  have ms: "(''h0:0'', sampleSpend) \<in> set (spends sampleTracker)" by (simp add: sampleTracker_def)
  have sh: "103 \<le> spend_blockHeight sampleSpend" by (simp add: sampleSpend_def)
  note t = handleFork_keeps_spentHeight [of sampleTracker 103 0]
  from t m bh have r1: "(''h0:0'', ?o) \<in> set (outputs (handleFork 103 sampleTracker))" by blast
  from t ms sh have r2: "(''h0:0'', sampleSpend) \<notin> set (spends (handleFork 103 sampleTracker))"
    by blast
  from t m bh sp have r3: "recalculateBalances 0
       ((handleFork 103 sampleTracker)\<lparr>outputs := filter (\<lambda>e. e \<noteq> (''h0:0'', ?o))
          (outputs (handleFork 103 sampleTracker))\<rparr>)
       = recalculateBalances 0 (handleFork 103 sampleTracker)"
    by blast
  from t m bh sp
  have r4: "?o \<notin> set (getUnspentOutputs (map snd (outputs (handleFork 103 sampleTracker))))"
    by blast
  have f: "filter (\<lambda>e. e \<noteq> (''h0:0'', ?o)) (outputs (handleFork 103 sampleTracker))
      = [(''h2:0'', sampleOutput\<lparr>transactionHash := ''h2'', blockHeight := 101, amount := 9\<rparr>)]"
    by (simp add: handleFork_outputs sampleTracker_def sampleOutput_def)
  from r3 have r3': "recalculateBalances 0 (handleFork 103 sampleTracker)
       = recalculateBalances 0 ((handleFork 103 sampleTracker)
           \<lparr>outputs := [(''h2:0'', sampleOutput\<lparr>transactionHash := ''h2'', blockHeight := 101,
                                                amount := 9\<rparr>)]\<rparr>)"
    by (simp only: f)
  from m bh sp ms sh r1 r2 r3' r4 show ?thesis by blast
qed

section \<open>Precise staking outputs\<close>













lemma hexDigit_hexChar_not_None: "n < 16 \<Longrightarrow> hexDigit (hexChar n) \<noteq> None"
  by (simp add: hexDigit_hexChar)







end
